theory Spec2Isabelle
  imports Main "HOL-Library.Log_Nat"
begin

section \<open>Python numbers\<close>

text \<open>
  The dashboard is a Streamlit script: it runs top to bottom on every interaction, reads
  its inputs from sidebar widgets and computes with Python \<open>int\<close> (unbounded, modelled by
  \<open>int\<close>) and Python \<open>float\<close> (IEEE 754 binary64).

  A finite binary64 value is a dyadic rational, so a float is modelled by its value in
  \<open>rat\<close>, and every float operation is the exact operation followed by \<open>round64\<close>,
  rounding to the nearest binary64 value, ties to even (53 significant bits, least
  exponent \<open>-1074\<close>). Results beyond the binary64 range (about \<open>1.8e308\<close>) would be
  infinities in Python; \<open>round64\<close> has no upper exponent bound and keeps rounding to 53
  bits there. No value the widgets admit comes near that range.

  \<open>rne\<close> rounds to the nearest integer, ties to even; \<open>ilog2 x\<close> is the floor of the
  binary logarithm of a positive \<open>x\<close>; \<open>expo x\<close> is the exponent of the unit in the last
  place of the binade of \<open>x\<close>.
\<close>

definition rne :: "rat \<Rightarrow> int" where
  "rne x = (let f = \<lfloor>x\<rfloor>; d = x - of_int f in
     if d < 1 / 2 then f else if 1 / 2 < d then f + 1 else if even f then f else f + 1)"

definition ilog2 :: "rat \<Rightarrow> int" where
  "ilog2 x = (case quotient_of x of (p, q) \<Rightarrow>
     let e = bitlen p - bitlen q in if 2 powi e \<le> x then e else e - 1)"

definition expo :: "rat \<Rightarrow> int" where
  "expo x = max (ilog2 \<bar>x\<bar> - 52) (- 1074)"

definition round64 :: "rat \<Rightarrow> rat" where
  "round64 x = (if x = 0 then 0 else of_int (rne (x / 2 powi expo x)) * 2 powi expo x)"

definition fadd :: "rat \<Rightarrow> rat \<Rightarrow> rat" where
  "fadd x y = round64 (x + y)"

definition fsub :: "rat \<Rightarrow> rat \<Rightarrow> rat" where
  "fsub x y = round64 (x - y)"

definition fmul :: "rat \<Rightarrow> rat \<Rightarrow> rat" where
  "fmul x y = round64 (x * y)"

definition fdiv :: "rat \<Rightarrow> rat \<Rightarrow> rat" where
  "fdiv x y = round64 (x / y)"

text \<open>The conversion of an \<open>int\<close> operand in mixed arithmetic (\<open>float(n)\<close>).\<close>

definition float_of_int :: "int \<Rightarrow> rat" where
  "float_of_int n = round64 (of_int n)"

text \<open>\<open>range(n)\<close>, and \<open>range(a, b, s)\<close> for a positive step \<open>s\<close>.\<close>

definition py_range :: "int \<Rightarrow> int list" where
  "py_range n = map int [0..<nat n]"

definition py_range3 :: "int \<Rightarrow> int \<Rightarrow> int \<Rightarrow> int list" where
  "py_range3 a b s = map (\<lambda>k. a + s * int k) [0..<nat ((b - a + s - 1) div s)]"

text \<open>
  The exceptions the script can raise: the true division of an \<open>int\<close> by zero,
  \<open>numpy.argmax\<close> of an empty sequence, and pandas arithmetic on a column of text.
\<close>

datatype py_error = ZeroDivisionError | ValueError | TypeError

text \<open>
  True division of two \<open>int\<close>s (\<open>a / b\<close>): the correctly rounded quotient. (Python
  raises \<open>OverflowError\<close> for a quotient beyond the binary64 range; the script divides
  the manual fuel flows only, which the widgets keep between 400 and 4000.)
\<close>

definition int_truediv :: "int \<Rightarrow> int \<Rightarrow> py_error + rat" where
  "int_truediv a b =
     (if b = 0 then Inl ZeroDivisionError else Inr (round64 (of_int a / of_int b)))"

section \<open>Uploaded tables\<close>

text \<open>
  A column of an uploaded table is read as integers (dtype int64, when every entry is an
  integer), as numbers (dtype float64) or as text; a table maps its column names to
  columns. A cell of a float64 column is a binary64 number, NaN (a missing value, which
  pandas skips in a mean) or an infinity; \<open>Infinite\<close> stands for either infinity, since
  the sign of a quotient by zero is the sign of the zero, which a value in \<open>rat\<close> does
  not carry. A pandas scalar is finite or not (NaN or an infinity).
\<close>

datatype cell = Num rat | NaN | Infinite

datatype column = Ints "int list" | Nums "cell list" | Strs "string list"

type_synonym frame = "string \<rightharpoonup> column"

datatype scalar = Finite rat | NotFinite

text \<open>
  \<open>Series.mean()\<close>: the sum of the cells that are not NaN, divided by their number. A
  column with an infinity has an infinite or NaN mean, a column with no number a NaN
  mean. The sum is taken here in row order from \<open>0.0\<close>, as NumPy adds fewer than eight
  rows; pandas may add a longer column in another order (NumPy adds eight rows or more
  pairwise), which can change the last bit of the result.
\<close>

fun nums :: "cell list \<Rightarrow> rat list" where
  "nums [] = []"
| "nums (Num x # cs) = x # nums cs"
| "nums (c # cs) = nums cs"

definition mean :: "cell list \<Rightarrow> scalar" where
  "mean cs =
     (if Infinite \<in> set cs then NotFinite
      else case nums cs of
             [] \<Rightarrow> NotFinite
           | y # ys \<Rightarrow>
               Finite (fdiv (foldl fadd 0 (y # ys)) (float_of_int (int (length (y # ys))))))"

text \<open>
  NumPy arithmetic on table cells does not raise: a result beyond the largest binary64
  number \<open>max_double\<close> is an infinity. \<open>fl x\<close> is the binary64 result of the exact
  value \<open>x\<close>; \<open>float64\<close> is the cell as a float64 column stores it (a binary64 number
  within the range is stored as it is); \<open>int64\<close> is the wrap-around of int64 arithmetic;
  \<open>float_cells\<close> is the conversion of a numeric column to float64 (\<open>None\<close> for a column
  of text).
\<close>

definition max_double :: rat where
  "max_double = (2 ^ 53 - 1) * 2 ^ 971"

definition fl :: "rat \<Rightarrow> cell" where
  "fl x = (if \<bar>round64 x\<bar> \<le> max_double then Num (round64 x) else Infinite)"

definition float64 :: "cell \<Rightarrow> cell" where
  "float64 c = (case c of Num x \<Rightarrow> fl x | _ \<Rightarrow> c)"

definition int64 :: "int \<Rightarrow> int" where
  "int64 n = (n + 2 ^ 63) mod 2 ^ 64 - 2 ^ 63"

definition float_cells :: "column \<Rightarrow> cell list option" where
  "float_cells c =
     (case c of
        Ints ns \<Rightarrow> Some (map (\<lambda>n. Num (float_of_int n)) ns)
      | Nums cs \<Rightarrow> Some cs
      | Strs _ \<Rightarrow> None)"

text \<open>
  One row of \<open>(df["Fuel_Flow_Pre"] - df["Fuel_Flow_Post"]) / df["Fuel_Flow_Pre"] * 100.0\<close>.

  \<open>percent_of d a\<close> is \<open>d / a * 100.0\<close> on two binary64 numbers: \<open>0 / 0\<close> is NaN, any
  other quotient by zero an infinity, and an infinite quotient stays infinite.
  \<open>row_dSFC\<close> is the row of two float64 columns, on the cells as stored: the
  difference is rounded (and may overflow), then divided by the pre-wash flow; an
  infinite post-wash flow gives an infinity, every other NaN or infinity a NaN.
  \<open>int_row_dSFC\<close> is the row of two int64 columns: the difference is exact int64
  arithmetic, and the division converts both operands to float64 first.
\<close>

definition percent_of :: "rat \<Rightarrow> rat \<Rightarrow> cell" where
  "percent_of d a =
     (if a = 0 then (if d = 0 then NaN else Infinite)
      else case fl (d / a) of Num q \<Rightarrow> fl (q * 100) | c \<Rightarrow> c)"

definition row_dSFC :: "cell \<Rightarrow> cell \<Rightarrow> cell" where
  "row_dSFC pre post =
     (case (float64 pre, float64 post) of
        (Num a, Num b) \<Rightarrow> (case fl (a - b) of Num d \<Rightarrow> percent_of d a | c \<Rightarrow> c)
      | (Num a, Infinite) \<Rightarrow> Infinite
      | _ \<Rightarrow> NaN)"

definition int_row_dSFC :: "int \<Rightarrow> int \<Rightarrow> cell" where
  "int_row_dSFC a b = percent_of (float_of_int (int64 (a - b))) (float_of_int a)"

text \<open>
  The column of the rows. Two int64 columns are subtracted as integers; in every other
  numeric case both columns are float64 (an int64 column is converted) before the
  subtraction. Arithmetic on a column of text raises \<open>TypeError\<close>.
\<close>

definition delta_sfc_column :: "column \<Rightarrow> column \<Rightarrow> py_error + column" where
  "delta_sfc_column pre post =
     (case (pre, post) of
        (Ints a, Ints b) \<Rightarrow> Inr (Nums (map2 int_row_dSFC a b))
      | _ \<Rightarrow>
          (case (float_cells pre, float_cells post) of
             (Some a, Some b) \<Rightarrow> Inr (Nums (map2 row_dSFC a b))
           | _ \<Rightarrow> Inl TypeError))"

text \<open>The mean of a column; an int64 column is summed as float64.\<close>

definition column_mean :: "column \<Rightarrow> py_error + scalar" where
  "column_mean c =
     (case c of
        Ints ns \<Rightarrow> Inr (mean (map (\<lambda>n. Num (float_of_int n)) ns))
      | Nums cs \<Rightarrow> Inr (mean cs)
      | Strs _ \<Rightarrow> Inl TypeError)"

section \<open>The sidebar inputs\<close>

text \<open>
  The widgets of the sidebar. \<open>qar_df\<close> is the uploaded table, \<open>None\<close> when no file was
  uploaded or it could not be read. \<open>degradation_rate_input\<close> and \<open>recovery_slider\<close> are
  the two widgets of the QAR mode, \<open>fuel_flow_pre_input\<close> and \<open>fuel_flow_post_input\<close> the
  manual fuel flows asked for when there is no table.
\<close>

record inputs =
  qar_mode :: bool
  qar_df :: "frame option"
  EGT_before :: int
  EGT_after :: int
  flight_time :: rat
  flights_per_year :: int
  fuel_price :: rat
  wash_cost :: int
  degradation_rate_input :: rat
  recovery_slider :: int
  fuel_flow_pre_input :: int
  fuel_flow_post_input :: int
  max_interval :: int


definition fuel_flow :: rat where
  "fuel_flow = round64 (521 / 1000)"

definition deg_rate_default :: rat where
  "deg_rate_default = round64 (13 / 1000)"

definition recovery_default :: rat where
  "recovery_default = 1"

section \<open>The efficiency model of the chosen mode\<close>

text \<open>
  The manual fuel flows are \<open>int\<close>s:
  \<open>dSFC = (fuel_flow_pre - fuel_flow_post) / fuel_flow_pre * 100.0\<close> (line 206).
\<close>

definition dSFC_fuel_flow :: "int \<Rightarrow> int \<Rightarrow> py_error + rat" where
  "dSFC_fuel_flow pre post =
     (case int_truediv (pre - post) pre of
        Inl e \<Rightarrow> Inl e
      | Inr q \<Rightarrow> Inr (fmul q 100))"

text \<open>The EGT heuristic: \<open>dSFC = 0.08 * (EGT_before - EGT_after)\<close> (line 212).\<close>

definition dSFC_egt :: "int \<Rightarrow> int \<Rightarrow> rat" where
  "dSFC_egt before after = fmul (round64 (8 / 100)) (float_of_int (before - after))"

record efficiency =
  degradation_rate :: rat
  recovery_factor :: rat
  dSFC :: scalar
  fuel_flow_pre :: "scalar option"
  fuel_flow_post :: "scalar option"

text \<open>
  With a table (lines 193 to 201): \<open>dSFC\<close> is the mean of the row-wise column when the
  table has both fuel-flow columns, else the constant \<open>1.6\<close>; each mean fuel flow is
  \<open>qar_df.get(name, pd.Series([default])).mean()\<close>.
\<close>

definition qar_dSFC :: "frame \<Rightarrow> py_error + scalar" where
  "qar_dSFC df =
     (case (df ''Fuel_Flow_Pre'', df ''Fuel_Flow_Post'') of
        (Some pre, Some post) \<Rightarrow>
          (case delta_sfc_column pre post of
             Inl e \<Rightarrow> Inl e
           | Inr c \<Rightarrow> column_mean c)
      | _ \<Rightarrow> Inr (Finite (round64 (16 / 10))))"

definition mean_or_default :: "frame \<Rightarrow> string \<Rightarrow> int \<Rightarrow> py_error + scalar" where
  "mean_or_default df name d =
     (case df name of
        None \<Rightarrow> column_mean (Nums [Num (of_int d)])
      | Some c \<Rightarrow> column_mean c)"

definition qar_table_model :: "inputs \<Rightarrow> frame \<Rightarrow> py_error + efficiency" where
  "qar_table_model w df =
     (case qar_dSFC df of
        Inl e \<Rightarrow> Inl e
      | Inr d \<Rightarrow>
          (case mean_or_default df ''Fuel_Flow_Pre'' 1250 of
             Inl e \<Rightarrow> Inl e
           | Inr pre \<Rightarrow>
               (case mean_or_default df ''Fuel_Flow_Post'' 1230 of
                  Inl e \<Rightarrow> Inl e
                | Inr post \<Rightarrow>
                    Inr \<lparr>degradation_rate = degradation_rate_input w,
                         recovery_factor = fdiv (float_of_int (recovery_slider w)) 100,
                         dSFC = d, fuel_flow_pre = Some pre, fuel_flow_post = Some post\<rparr>)))"

definition mode_specific :: "inputs \<Rightarrow> py_error + efficiency" where
  "mode_specific w =
     (if qar_mode w then
        (case qar_df w of
           Some df \<Rightarrow> qar_table_model w df
         | None \<Rightarrow>
             (case dSFC_fuel_flow (fuel_flow_pre_input w) (fuel_flow_post_input w) of
                Inl e \<Rightarrow> Inl e
              | Inr d \<Rightarrow>
                  Inr \<lparr>degradation_rate = degradation_rate_input w,
                       recovery_factor = fdiv (float_of_int (recovery_slider w)) 100,
                       dSFC = Finite d,
                       fuel_flow_pre = Some (Finite (float_of_int (fuel_flow_pre_input w))),
                       fuel_flow_post = Some (Finite (float_of_int (fuel_flow_post_input w)))\<rparr>))
      else
        Inr \<lparr>degradation_rate = deg_rate_default, recovery_factor = recovery_default,
             dSFC = Finite (dSFC_egt (EGT_before w) (EGT_after w)),
             fuel_flow_pre = None, fuel_flow_post = None\<rparr>)"

section \<open>The key results\<close>

text \<open>
  Lines 215 to 218. A \<open>dSFC\<close> that is not finite makes every result not finite.
\<close>

record kpis =
  fuel_saved_flight :: scalar
  CO2_saved_flight :: scalar
  CO2_saved_annual :: scalar
  cost_saved_annual :: scalar


section \<open>The cost-benefit sweep\<close>

record sim =
  deg :: rat
  fuel_burn :: rat

definition init_sim :: sim where
  "init_sim = \<lparr>deg = 0, fuel_burn = 0\<rparr>"

text \<open>
  The no-wash loop (lines 275 to 279):
  \<^verbatim>\<open>
  for _ in range(flights_per_year):
      fuel_burn += 1.0 + deg / 100.0
      deg += degradation_rate
  \<close>
\<close>

definition baseline_step :: "rat \<Rightarrow> sim \<Rightarrow> sim" where
  "baseline_step rate s =
     (let fb = fadd (fuel_burn s) (fadd 1 (fdiv (deg s) 100));
          d = fadd (deg s) rate
      in \<lparr>deg = d, fuel_burn = fb\<rparr>)"

definition baseline_loop :: "rat \<Rightarrow> int \<Rightarrow> sim" where
  "baseline_loop rate n = fold (\<lambda>_. baseline_step rate) (py_range n) init_sim"

definition baseline_cost :: "inputs \<Rightarrow> rat \<Rightarrow> rat" where
  "baseline_cost w rate =
     (let fb = fuel_burn (baseline_loop rate (flights_per_year w));
          baseline_fuel_kg = fmul (fmul (fmul fuel_flow (flight_time w)) 3600) fb
      in fmul baseline_fuel_kg (fuel_price w))"

text \<open>
  The loop of one candidate interval (lines 284 to 290):
  \<^verbatim>\<open>
  for i in range(flights_per_year):
      fuel_burn += 1.0 + deg / 100.0
      deg += degradation_rate
      if (i + 1) % iv == 0:
          deg *= (1.0 - recovery_factor)
  \<close>
  Every interval the script passes is positive (the sweep starts at 20, the fixed policy
  is at least 1), so \<open>%\<close> never divides by zero.
\<close>

definition wash_step :: "rat \<Rightarrow> rat \<Rightarrow> int \<Rightarrow> int \<Rightarrow> sim \<Rightarrow> sim" where
  "wash_step rate rf iv i s =
     (let fb = fadd (fuel_burn s) (fadd 1 (fdiv (deg s) 100));
          d = fadd (deg s) rate;
          d' = (if (i + 1) mod iv = 0 then fmul d (fsub 1 rf) else d)
      in \<lparr>deg = d', fuel_burn = fb\<rparr>)"

definition wash_loop :: "rat \<Rightarrow> rat \<Rightarrow> int \<Rightarrow> int \<Rightarrow> sim" where
  "wash_loop rate rf iv n = fold (wash_step rate rf iv) (py_range n) init_sim"

record evaluation =
  fuel_cost :: rat
  total_wash_cost :: int
  net :: rat

definition evaluate :: "inputs \<Rightarrow> rat \<Rightarrow> rat \<Rightarrow> rat \<Rightarrow> int \<Rightarrow> evaluation" where
  "evaluate w rate rf bc iv =
     (let fb = fuel_burn (wash_loop rate rf iv (flights_per_year w));
          fuel_kg = fmul (fmul (fmul fuel_flow (flight_time w)) 3600) fb;
          fc = fmul fuel_kg (fuel_price w);
          n_washes = flights_per_year w div iv;
          twc = n_washes * wash_cost w;
          nt = fsub bc (fadd fc (float_of_int twc))
      in \<lparr>fuel_cost = fc, total_wash_cost = twc, net = nt\<rparr>)"

definition intervals :: "int \<Rightarrow> int list" where
  "intervals m = py_range3 20 (m + 1) 10"

record table =
  fuel_costs :: "rat list"
  wash_costs :: "int list"
  net_savings :: "rat list"

definition sweep_step :: "inputs \<Rightarrow> rat \<Rightarrow> rat \<Rightarrow> rat \<Rightarrow> int \<Rightarrow> table \<Rightarrow> table" where
  "sweep_step w rate rf bc iv t =
     (let e = evaluate w rate rf bc iv
      in \<lparr>fuel_costs = fuel_costs t @ [fuel_cost e],
          wash_costs = wash_costs t @ [total_wash_cost e],
          net_savings = net_savings t @ [net e]\<rparr>)"

definition sweep :: "inputs \<Rightarrow> rat \<Rightarrow> rat \<Rightarrow> table" where
  "sweep w rate rf =
     fold (sweep_step w rate rf (baseline_cost w rate)) (intervals (max_interval w))
       \<lparr>fuel_costs = [], wash_costs = [], net_savings = []\<rparr>"

text \<open>
  \<open>numpy.argmax\<close>: the index of the first occurrence of the maximum; an empty sequence
  raises \<open>ValueError\<close>. The scan keeps the best index and value so far and replaces them
  only on a strictly larger element.
\<close>

fun argmax_from :: "nat \<Rightarrow> nat \<Rightarrow> rat \<Rightarrow> rat list \<Rightarrow> nat" where
  "argmax_from i b v [] = b"
| "argmax_from i b v (x # xs) =
     (if v < x then argmax_from (Suc i) i x xs else argmax_from (Suc i) b v xs)"

definition argmax :: "rat list \<Rightarrow> py_error + nat" where
  "argmax xs = (case xs of [] \<Rightarrow> Inl ValueError | x # r \<Rightarrow> Inr (argmax_from 1 0 x r))"

record optimum =
  opt_idx :: nat
  opt_interval :: int
  opt_net :: rat
  opt_washes :: int

definition optimizer :: "inputs \<Rightarrow> rat \<Rightarrow> rat \<Rightarrow> py_error + optimum" where
  "optimizer w rate rf =
     (let ivs = intervals (max_interval w);
          t = sweep w rate rf
      in case argmax (net_savings t) of
           Inl e \<Rightarrow> Inl e
         | Inr i \<Rightarrow>
             Inr \<lparr>opt_idx = i, opt_interval = ivs ! i, opt_net = net_savings t ! i,
                  opt_washes = flights_per_year w div (ivs ! i)\<rparr>)"

section \<open>The degradation and recovery trajectories\<close>

record trajectory =
  eff_no :: "rat list"
  eff_two :: "rat list"
  eff_opt :: "rat list"
  deg_no :: rat
  deg_two :: rat
  deg_opt :: rat

definition init_trajectory :: trajectory where
  "init_trajectory =
     \<lparr>eff_no = [], eff_two = [], eff_opt = [], deg_no = 0, deg_two = 0, deg_opt = 0\<rparr>"

definition traj_step :: "rat \<Rightarrow> rat \<Rightarrow> int \<Rightarrow> int \<Rightarrow> int \<Rightarrow> trajectory \<Rightarrow> trajectory" where
  "traj_step rate rf interval_two opt_iv c t =
     (let dn = fadd (deg_no t) rate;
          dt = fadd (deg_two t) rate;
          dopt = fadd (deg_opt t) rate
      in \<lparr>eff_no = eff_no t @ [fsub 100 (deg_no t)],
          eff_two = eff_two t @ [fsub 100 (deg_two t)],
          eff_opt = eff_opt t @ [fsub 100 (deg_opt t)],
          deg_no = dn,
          deg_two = (if (c + 1) mod interval_two = 0 then fmul dt (fsub 1 rf) else dt),
          deg_opt = (if (c + 1) mod opt_iv = 0 then fmul dopt (fsub 1 rf) else dopt)\<rparr>)"

definition trajectories :: "int \<Rightarrow> rat \<Rightarrow> rat \<Rightarrow> int \<Rightarrow> trajectory" where
  "trajectories n rate rf opt_iv =
     (let interval_two = max (n div 2) 1
      in fold (traj_step rate rf interval_two opt_iv) (py_range n) init_trajectory)"

section \<open>One run of the dashboard\<close>

text \<open>
  The script from the mode-specific inputs to the trajectories. An exception ends the
  run. The charts and gauges only display these values.
\<close>

record outputs =
  model :: efficiency
  results :: kpis
  evaluations :: table
  best :: optimum
  curves :: trajectory


section \<open>The fleet page\<close>

text \<open>
  \<open>pages/Fleet_Heatmap.py\<close>, lines 28 to 62: the upload, the validation of the columns,
  the \<open>\<Delta>SFC\<close> column and the parsing of the months. \<open>st.stop()\<close> ends the run: nothing
  below it is executed. A run that is not stopped continues with the aggregation, the
  heatmap, the trend lines, the metrics, the alert and the download, all computed from
  the table it has at that point; they are not modelled further.

  Strings are byte strings: the non-ASCII characters of the column name and of the
  messages are written as their UTF-8 bytes.
\<close>

datatype upload = NoFile | Unreadable string | Table frame

datatype level = StInfo | StError | StWarning

datatype page = Stopped level string | Continue frame "nat list"

definition Delta :: string where
  "Delta = [CHR 0xCE, CHR 0x94]"

definition warning_sign :: string where
  "warning_sign = [CHR 0xE2, CHR 0x9A, CHR 0xA0, CHR 0xEF, CHR 0xB8, CHR 0x8F]"

definition delta_sfc_name :: string where
  "delta_sfc_name = Delta @ ''SFC''"

definition upload_hint :: string where
  "upload_hint =
     ''Upload a fleet dataset containing columns at least: Aircraft_ID, Month, and either ''
     @ Delta @ ''SFC or (Fuel_Flow_Pre & Fuel_Flow_Post).''"

definition reading_error :: "string \<Rightarrow> string" where
  "reading_error e = warning_sign @ '' Error reading file: '' @ e"

definition required_message :: string where
  "required_message = ''Dataset must include columns: Aircraft_ID and Month.''"

definition delta_sfc_message :: string where
  "delta_sfc_message =
     ''Dataset must include '' @ Delta
     @ ''SFC or (Fuel_Flow_Pre & Fuel_Flow_Post) to compute it.''"

definition month_message :: string where
  "month_message =
     warning_sign @ '' Could not parse Month column automatically. Ensure it''
     @ [CHR 0xE2, CHR 0x80, CHR 0x99] @ ''s in format like '' @ [CHR 0x27] @ ''Jan 25''
     @ [CHR 0x27] @ ''.''"

definition has_column :: "frame \<Rightarrow> string \<Rightarrow> bool" where
  "has_column df name = (df name \<noteq> None)"

text \<open>
  Lines 50 and 51:
  \<^verbatim>\<open>
  if "dSFC" not in df.columns and {"Fuel_Flow_Pre", "Fuel_Flow_Post"}.issubset(df.columns):
      df["dSFC"] = (df["Fuel_Flow_Pre"] - df["Fuel_Flow_Post"]) / df["Fuel_Flow_Pre"] * 100.0
  \<close>
  (with the Greek capital delta in the column name).
\<close>

definition with_delta_sfc :: "frame \<Rightarrow> py_error + frame" where
  "with_delta_sfc df =
     (if \<not> has_column df delta_sfc_name then
        (case (df ''Fuel_Flow_Pre'', df ''Fuel_Flow_Post'') of
           (Some pre, Some post) \<Rightarrow>
             (case delta_sfc_column pre post of
                Inl e \<Rightarrow> Inl e
              | Inr c \<Rightarrow> Inr (df(delta_sfc_name \<mapsto> c)))
         | _ \<Rightarrow> Inr df)
      else Inr df)"

text \<open>
  \<open>parse\<close> stands for \<open>pd.to_datetime(column, format="%b %y")\<close>, the library's parser of
  the month column: \<open>None\<close> when it raises, else the parsed months.
\<close>

definition fleet_page :: "(column \<Rightarrow> nat list option) \<Rightarrow> upload \<Rightarrow> py_error + page" where
  "fleet_page parse up =
     (case up of
        NoFile \<Rightarrow> Inr (Stopped StInfo upload_hint)
      | Unreadable e \<Rightarrow> Inr (Stopped StError (reading_error e))
      | Table df \<Rightarrow>
          (if \<not> (has_column df ''Aircraft_ID'' \<and> has_column df ''Month'') then
             Inr (Stopped StError required_message)
           else
             (case with_delta_sfc df of
                Inl e \<Rightarrow> Inl e
              | Inr df' \<Rightarrow>
                  (if \<not> has_column df' delta_sfc_name then
                     Inr (Stopped StError delta_sfc_message)
                   else
                     (case df' ''Month'' of
                        None \<Rightarrow> Inr (Stopped StWarning month_message)
                      | Some c \<Rightarrow>
                          (case parse c of
                             None \<Rightarrow> Inr (Stopped StWarning month_message)
                           | Some months \<Rightarrow> Inr (Continue df' months)))))))"

section \<open>The values the widgets start with\<close>

text \<open>
  The defaults of the sidebar: QAR mode without a table, 600 flights a year of 2.5 hours,
  fuel at 0.8 a kilogram, 4000 a wash, a sweep up to 120 flights.
\<close>

definition default_inputs :: inputs where
  "default_inputs =
     \<lparr>qar_mode = True, qar_df = None, EGT_before = 630, EGT_after = 620, flight_time = 5 / 2,
      flights_per_year = 600, fuel_price = round64 (8 / 10), wash_cost = 4000,
      degradation_rate_input = round64 (12 / 1000), recovery_slider = 92,
      fuel_flow_pre_input = 1250, fuel_flow_post_input = 1230, max_interval = 120\<rparr>"


definition fleet_without_post :: frame where
  "fleet_without_post =
     [''Aircraft_ID'' \<mapsto> Strs [''PH-JSA''], ''Month'' \<mapsto> Strs [''Jan 25''],
      ''Fuel_Flow_Pre'' \<mapsto> Nums [Num 1250]]"


section \<open>Properties of the rounding\<close>

text \<open>
  \<open>ilog2\<close> is the floor of the binary logarithm; \<open>rne\<close> is monotone, odd and fixes
  the integers; \<open>round64\<close> fixes every number \<open>m * 2 ^ e\<close> with \<open>\<bar>m\<bar> < 2 ^ 53\<close> and
  \<open>- 1074 \<le> e\<close>, is idempotent, odd and monotone.
\<close>

lemma bitlen_powi_bounds:
  fixes p :: int
  assumes "0 < p"
  shows "(2::rat) powi (bitlen p - 1) \<le> of_int p" and "of_int p < (2::rat) powi (bitlen p)"
proof -
  from assms have b1: "1 \<le> bitlen p"
    by (simp add: bitlen_alt_def)
  from bitlen_bounds [OF assms]
  have lo: "2 ^ nat (bitlen p - 1) \<le> p" and hi: "p < 2 ^ nat (bitlen p)"
    by simp_all
  from lo have "(of_int (2 ^ nat (bitlen p - 1)) :: rat) \<le> of_int p"
    by (simp only: of_int_le_iff)
  then show "(2::rat) powi (bitlen p - 1) \<le> of_int p"
    using b1 by (simp add: power_int_nonneg_exp)
  from hi have "(of_int p :: rat) < of_int (2 ^ nat (bitlen p))"
    by (simp only: of_int_less_iff)
  then show "of_int p < (2::rat) powi (bitlen p)"
    using b1 by (simp add: power_int_nonneg_exp)
qed

lemma ilog2_bounds:
  assumes "0 < x"
  shows "2 powi (ilog2 x) \<le> x" and "x < 2 powi (ilog2 x + 1)"
proof -
  obtain p q where pq: "quotient_of x = (p, q)"
    by (cases "quotient_of x")
  then have q: "0 < q" and x: "x = of_int p / of_int q"
    by (simp_all add: quotient_of_denom_pos quotient_of_div)
  from assms q x have p: "0 < p"
    by (simp add: zero_less_divide_iff)
  define e where "e = bitlen p - bitlen q"
  have "x < 2 powi (bitlen p) / 2 powi (bitlen q - 1)"
    unfolding x using bitlen_powi_bounds [OF p] bitlen_powi_bounds [OF q] p q
    by (intro frac_less) simp_all
  then have up: "x < 2 powi (e + 1)"
    by (simp add: e_def power_int_diff power_int_add)
  have "2 powi (bitlen p - 1) / 2 powi (bitlen q) < x"
    unfolding x using bitlen_powi_bounds [OF p] bitlen_powi_bounds [OF q] p q
    by (intro frac_less2) simp_all
  moreover have "(2::rat) powi (e - 1) = 2 powi (bitlen p - 1) / 2 powi (bitlen q)"
    using power_int_diff [of "2::rat" "bitlen p - 1" "bitlen q"]
    by (simp add: e_def algebra_simps)
  ultimately have low: "2 powi (e - 1) < x"
    by simp
  have il: "ilog2 x = (if 2 powi e \<le> x then e else e - 1)"
    by (simp add: ilog2_def pq e_def)
  show "2 powi (ilog2 x) \<le> x"
    using low by (simp add: il)
  show "x < 2 powi (ilog2 x + 1)"
    using up by (auto simp add: il)
qed

lemma pow2_less_cancel:
  assumes "(2::rat) powi a < 2 powi b"
  shows "a < b"
proof (rule ccontr)
  assume "\<not> a < b"
  then have "(2::rat) powi b \<le> 2 powi a"
    by (intro power_int_increasing) simp_all
  with assms show False by simp
qed

lemma ilog2_unique:
  assumes "2 powi k \<le> x" and "x < 2 powi (k + 1)"
  shows "ilog2 x = k"
proof -
  have x: "0 < x"
    using assms(1) by (rule less_le_trans [rotated]) simp
  from ilog2_bounds [OF x] assms
  have "(2::rat) powi (ilog2 x) < 2 powi (k + 1)" and "(2::rat) powi k < 2 powi (ilog2 x + 1)"
    by simp_all
  then have "ilog2 x < k + 1" and "k < ilog2 x + 1"
    by (blast dest: pow2_less_cancel)+
  then show ?thesis by simp
qed

lemma rne_of_int: "rne (of_int k) = k"
  by (simp add: rne_def)

lemma rne_mono:
  assumes "x \<le> y"
  shows "rne x \<le> rne y"
proof (cases "\<lfloor>x\<rfloor> = \<lfloor>y\<rfloor>")
  case True
  with assms show ?thesis
    by (auto simp add: rne_def Let_def)
next
  case False
  with assms have "\<lfloor>x\<rfloor> + 1 \<le> \<lfloor>y\<rfloor>"
    using floor_mono [of x y] by linarith
  moreover have "rne x \<le> \<lfloor>x\<rfloor> + 1"
    by (simp add: rne_def Let_def)
  moreover have "\<lfloor>y\<rfloor> \<le> rne y"
    by (simp add: rne_def Let_def)
  ultimately show ?thesis by linarith
qed

lemma rne_minus: "rne (- x) = - rne x"
proof (cases "x = of_int \<lfloor>x\<rfloor>")
  case True
  then obtain k where "x = of_int k" ..
  then have "- x = of_int (- k)" by simp
  then show ?thesis
    using \<open>x = of_int k\<close> by (simp only: rne_of_int)
next
  case False
  then have "\<lceil>x\<rceil> = \<lfloor>x\<rfloor> + 1"
    by (simp add: ceiling_altdef)
  then have fl: "\<lfloor>- x\<rfloor> = - \<lfloor>x\<rfloor> - 1"
    by (simp add: ceiling_def)
  have d: "- x - of_int (- \<lfloor>x\<rfloor> - 1) = 1 - (x - of_int \<lfloor>x\<rfloor>)"
    by simp
  have nz: "x - of_int \<lfloor>x\<rfloor> \<noteq> 0"
    using False by simp
  show ?thesis
    unfolding rne_def Let_def fl d using nz by auto
qed

lemma rne_lower: "of_int a \<le> x \<Longrightarrow> a \<le> rne x"
  using rne_mono [of "of_int a" x] by (simp add: rne_of_int)

lemma rne_upper: "x \<le> of_int b \<Longrightarrow> rne x \<le> b"
  using rne_mono [of x "of_int b"] by (simp add: rne_of_int)

lemma round64_zero: "round64 0 = 0"
  by (simp add: round64_def)

lemma expo_minus: "expo (- x) = expo x"
  by (simp add: expo_def)

lemma round64_minus: "round64 (- x) = - round64 x"
  by (simp add: round64_def expo_minus rne_minus)

lemma expo_ge: "- 1074 \<le> expo x"
  by (simp add: expo_def)

lemma expo_upper:
  assumes "0 < x"
  shows "x < 2 powi (expo x + 53)"
proof -
  have "x < 2 powi (ilog2 x + 1)"
    using assms by (rule ilog2_bounds)
  also have "\<dots> \<le> 2 powi (expo x + 53)"
    using assms by (intro power_int_increasing) (simp_all add: expo_def)
  finally show ?thesis .
qed

lemma expo_le:
  assumes "0 < x" and "x < 2 powi (e + 53)" and "- 1074 \<le> e"
  shows "expo x \<le> e"
proof -
  have "2 powi (ilog2 x) < (2::rat) powi (e + 53)"
    using ilog2_bounds(1) [OF assms(1)] assms(2) by simp
  then have "ilog2 x < e + 53"
    by (rule pow2_less_cancel)
  with assms(1,3) show ?thesis
    by (simp add: expo_def)
qed

lemma round64_fixed_pos:
  assumes "0 < m" and "m < 2 ^ 53" and "- 1074 \<le> e"
  shows "round64 (of_int m * 2 powi e) = of_int m * 2 powi e"
proof -
  define x :: rat where "x = of_int m * 2 powi e"
  have x: "0 < x"
    using assms(1) by (simp add: x_def)
  have "of_int m < (2::rat) ^ 53"
    using assms(2) by (metis of_int_less_iff of_int_numeral of_int_power)
  then have "x < 2 ^ 53 * 2 powi e"
    by (simp add: x_def)
  also have "\<dots> = 2 powi (e + 53)"
    by (simp add: power_int_add)
  finally have "expo x \<le> e"
    using x assms(3) by (intro expo_le)
  define E where "E = expo x"
  from \<open>expo x \<le> e\<close> have "0 \<le> e - E"
    by (simp add: E_def)
  then obtain n where "e - E = int n"
    using nonneg_int_cases by blast
  then have n: "e = E + int n"
    by simp
  have xE: "x = of_int (m * 2 ^ n) * 2 powi E"
    unfolding x_def n by (simp add: power_int_add)
  then have "x / 2 powi E = of_int (m * 2 ^ n)"
    by simp
  then have "rne (x / 2 powi E) = m * 2 ^ n"
    by (simp only: rne_of_int)
  then have "round64 x = of_int (m * 2 ^ n) * 2 powi E"
    using x unfolding round64_def E_def by simp
  also have "\<dots> = x"
    by (simp only: xE)
  finally show ?thesis
    by (simp only: x_def)
qed

lemma round64_fixed:
  assumes "\<bar>m\<bar> < 2 ^ 53" and "- 1074 \<le> e"
  shows "round64 (of_int m * 2 powi e) = of_int m * 2 powi e"
proof -
  consider "m = 0" | "0 < m" | "m < 0" by linarith
  then show ?thesis
  proof cases
    case 1
    then show ?thesis by (simp add: round64_zero)
  next
    case 2
    with assms show ?thesis by (intro round64_fixed_pos) simp_all
  next
    case 3
    with assms have "round64 (of_int (- m) * 2 powi e) = of_int (- m) * 2 powi e"
      by (intro round64_fixed_pos) simp_all
    then have "round64 (- (of_int m * 2 powi e)) = - (of_int m * 2 powi e)"
      by simp
    then show ?thesis
      by (simp only: round64_minus neg_equal_iff_equal)
  qed
qed

lemma mant_bounds:
  assumes "0 < x"
  shows "0 \<le> rne (x / 2 powi expo x)" and "rne (x / 2 powi expo x) \<le> 2 ^ 53"
proof -
  have "of_int 0 \<le> x / 2 powi expo x"
    using assms by simp
  then show "0 \<le> rne (x / 2 powi expo x)"
    by (rule rne_lower)
  have "x < 2 powi expo x * 2 ^ 53"
    using expo_upper [OF assms] by (simp add: power_int_add)
  then have "x / 2 powi expo x \<le> of_int (2 ^ 53)"
    by (simp add: pos_divide_le_eq mult.commute)
  then show "rne (x / 2 powi expo x) \<le> 2 ^ 53"
    by (rule rne_upper)
qed

lemma round64_idem_pos:
  assumes "0 < x"
  shows "round64 (round64 x) = round64 x"
proof -
  define k where "k = rne (x / 2 powi expo x)"
  have r: "round64 x = of_int k * 2 powi expo x"
    using assms by (simp add: round64_def k_def)
  from mant_bounds [OF assms] have k: "0 \<le> k" "k \<le> 2 ^ 53"
    by (simp_all add: k_def)
  show ?thesis
  proof (cases "k = 2 ^ 53")
    case True
    have "round64 x = of_int (2 ^ 52) * 2 powi (expo x + 1)"
      by (simp add: r True power_int_add)
    moreover have "round64 (of_int (2 ^ 52) * 2 powi (expo x + 1)) =
        of_int (2 ^ 52) * 2 powi (expo x + 1)"
      using expo_ge [of x] by (intro round64_fixed) simp_all
    ultimately show ?thesis by simp
  next
    case False
    with k have "\<bar>k\<bar> < 2 ^ 53" by simp
    then have "round64 (of_int k * 2 powi expo x) = of_int k * 2 powi expo x"
      using expo_ge [of x] by (intro round64_fixed)
    then show ?thesis by (simp only: r)
  qed
qed

lemma round64_idem: "round64 (round64 x) = round64 x"
proof -
  consider "x = 0" | "0 < x" | "x < 0" by linarith
  then show ?thesis
  proof cases
    case 1
    then show ?thesis by (simp add: round64_zero)
  next
    case 2
    then show ?thesis by (rule round64_idem_pos)
  next
    case 3
    then have "round64 (round64 (- x)) = round64 (- x)"
      by (intro round64_idem_pos) simp
    then show ?thesis
      by (simp only: round64_minus neg_equal_iff_equal)
  qed
qed

lemma round64_nonneg:
  assumes "0 \<le> x"
  shows "0 \<le> round64 x"
proof (cases "x = 0")
  case True
  then show ?thesis by (simp add: round64_zero)
next
  case False
  with assms have x: "0 < x" by simp
  then show ?thesis
    using mant_bounds(1) [OF x] by (simp add: round64_def)
qed

lemma ilog2_mono:
  assumes "0 < x" and "x \<le> y"
  shows "ilog2 x \<le> ilog2 y"
proof -
  have y: "0 < y" using assms by simp
  have "2 powi (ilog2 x) \<le> x"
    using assms(1) by (rule ilog2_bounds)
  also note assms(2)
  also have "y < 2 powi (ilog2 y + 1)"
    using y by (rule ilog2_bounds)
  finally have "ilog2 x < ilog2 y + 1"
    by (rule pow2_less_cancel)
  then show ?thesis by simp
qed

lemma round64_mono_pos:
  assumes "0 < x" and "x \<le> y"
  shows "round64 x \<le> round64 y"
proof -
  have y: "0 < y" using assms by simp
  have rx: "round64 x = of_int (rne (x / 2 powi expo x)) * 2 powi expo x"
    using assms(1) by (simp add: round64_def)
  have ry: "round64 y = of_int (rne (y / 2 powi expo y)) * 2 powi expo y"
    using y by (simp add: round64_def)
  have le: "expo x \<le> expo y"
    using ilog2_mono [OF assms] assms(1) y by (simp add: expo_def)
  show ?thesis
  proof (cases "expo x = expo y")
    case True
    have "x / 2 powi expo y \<le> y / 2 powi expo y"
      using assms(2) by (simp add: divide_right_mono)
    then have "rne (x / 2 powi expo y) \<le> rne (y / 2 powi expo y)"
      by (rule rne_mono)
    then have "(of_int (rne (x / 2 powi expo y)) :: rat) \<le> of_int (rne (y / 2 powi expo y))"
      by (simp only: of_int_le_iff)
    then show ?thesis
      unfolding rx ry True by (intro mult_right_mono) simp_all
  next
    case False
    with le have lt: "expo x + 1 \<le> expo y" by simp
    then have ey: "expo y = ilog2 y - 52"
      using expo_ge [of x] y by (simp add: expo_def)
    have "of_int (rne (x / 2 powi expo x)) \<le> (of_int (2 ^ 53) :: rat)"
      using mant_bounds(2) [OF assms(1)] by (simp only: of_int_le_iff)
    then have "round64 x \<le> of_int (2 ^ 53) * 2 powi expo x"
      unfolding rx by (intro mult_right_mono) simp_all
    also have "\<dots> = 2 powi (expo x + 1 + 52)"
      by (simp add: power_int_add)
    also have "\<dots> \<le> 2 powi (expo y + 52)"
      using lt by (intro power_int_increasing) simp_all
    also have "\<dots> = of_int (2 ^ 52) * 2 powi expo y"
      by (simp add: power_int_add)
    also have "\<dots> \<le> round64 y"
    proof -
      have "2 powi (expo y + 52) \<le> y"
        using ilog2_bounds(1) [OF y] by (simp add: ey)
      then have "of_int (2 ^ 52) \<le> y / 2 powi expo y"
        by (simp add: power_int_add pos_le_divide_eq mult.commute)
      then have "2 ^ 52 \<le> rne (y / 2 powi expo y)"
        by (rule rne_lower)
      then have "(of_int (2 ^ 52) :: rat) \<le> of_int (rne (y / 2 powi expo y))"
        by (simp only: of_int_le_iff)
      then show ?thesis
        unfolding ry by (intro mult_right_mono) simp_all
    qed
    finally show ?thesis .
  qed
qed

lemma round64_mono:
  assumes "x \<le> y"
  shows "round64 x \<le> round64 y"
proof -
  consider "0 < x" | "x \<le> 0" "0 \<le> y" | "y < 0" using assms by linarith
  then show ?thesis
  proof cases
    case 1
    then show ?thesis using assms by (rule round64_mono_pos)
  next
    case 2
    then have "0 \<le> round64 (- x)" and "0 \<le> round64 y"
      by (simp_all add: round64_nonneg)
    then show ?thesis
      by (simp add: round64_minus)
  next
    case 3
    with assms have "round64 (- y) \<le> round64 (- x)"
      by (intro round64_mono_pos) simp_all
    then show ?thesis
      by (simp add: round64_minus)
  qed
qed

section \<open>The simulation loops\<close>

lemma py_range_Suc: "py_range (int (Suc n)) = py_range (int n) @ [int n]"
  unfolding py_range_def nat_int by simp

lemma py_range_int: "py_range n = py_range (int (nat n))"
  by (simp add: py_range_def)

lemma set_py_range: "i \<in> set (py_range n) \<longleftrightarrow> 0 \<le> i \<and> i < n"
  by (auto simp add: py_range_def image_iff intro: rev_bexI [of "nat i"])

lemma baseline_loop_0: "baseline_loop rate 0 = init_sim"
  by (simp add: baseline_loop_def py_range_def)

lemma baseline_loop_Suc:
  "baseline_loop rate (int (Suc n)) = baseline_step rate (baseline_loop rate (int n))"
  unfolding baseline_loop_def py_range_Suc by simp

lemma wash_loop_0: "wash_loop rate rf iv 0 = init_sim"
  by (simp add: wash_loop_def py_range_def)

lemma wash_loop_Suc:
  "wash_loop rate rf iv (int (Suc n)) = wash_step rate rf iv (int n) (wash_loop rate rf iv (int n))"
  unfolding wash_loop_def py_range_Suc by simp

lemma wash_step_no_wash:
  assumes "(i + 1) mod iv \<noteq> 0"
  shows "wash_step rate rf iv i s = baseline_step rate s"
  using assms by (simp add: wash_step_def baseline_step_def)

lemma wash_loop_never_triggers:
  assumes "n < iv"
  shows "wash_loop rate rf iv n = baseline_loop rate n"
proof -
  have "fold (wash_step rate rf iv) (py_range n) s = fold (\<lambda>_. baseline_step rate) (py_range n) s"
    for s
  proof (rule List.fold_cong)
    fix i
    assume "i \<in> set (py_range n)"
    then have "0 < i + 1" and "i + 1 < iv"
      using assms by (simp_all add: set_py_range)
    then have "(i + 1) mod iv = i + 1"
      by simp
    with \<open>0 < i + 1\<close> have "(i + 1) mod iv \<noteq> 0"
      by simp
    then show "wash_step rate rf iv i = (\<lambda>_. baseline_step rate) i"
      by (simp add: wash_step_no_wash fun_eq_iff)
  qed simp_all
  then show ?thesis
    by (simp add: wash_loop_def baseline_loop_def)
qed

text \<open>
  C3. The no-wash loop and the loop of a candidate interval are the same computation
  when the interval never triggers: for every degradation rate, recovery factor and
  flight count \<open>n\<close>, and every interval greater than \<open>n\<close>, the loop of the interval ends
  with exactly the cumulative burn (and the degradation) of the no-wash loop.
\<close>

theorem never_triggering_interval_is_baseline:
  assumes "n < iv"
  shows "fuel_burn (wash_loop rate rf iv n) = fuel_burn (baseline_loop rate n)
    \<and> deg (wash_loop rate rf iv n) = deg (baseline_loop rate n)"
  using assms by (simp add: wash_loop_never_triggers)

theorem never_triggering_interval_is_baseline_witness:
  "(50::int) < 60
   \<and> fuel_burn (wash_loop (round64 (12 / 1000)) (round64 (92 / 100)) 60 50) =
       fuel_burn (baseline_loop (round64 (12 / 1000)) 50)
   \<and> deg (wash_loop (round64 (12 / 1000)) (round64 (92 / 100)) 60 50) =
       deg (baseline_loop (round64 (12 / 1000)) 50)"
  using never_triggering_interval_is_baseline
    [of 50 60 "round64 (12 / 1000)" "round64 (92 / 100)"]
  by simp

section \<open>The optimizer\<close>

lemma argmax_from_spec:
  assumes "i \<le> length ys" and "b < i" and "v = ys ! b"
    and "\<forall>j<i. ys ! j \<le> v" and "\<forall>j<b. ys ! j < v"
  shows "argmax_from i b v (drop i ys) < length ys
    \<and> (\<forall>j<length ys. ys ! j \<le> ys ! argmax_from i b v (drop i ys))
    \<and> (\<forall>j<argmax_from i b v (drop i ys). ys ! j < ys ! argmax_from i b v (drop i ys))"
  using assms
proof (induction "length ys - i" arbitrary: i b v)
  case 0
  then have "drop i ys = []" and "i = length ys"
    by simp_all
  with 0 show ?case
    by simp
next
  case (Suc k)
  then have i: "i < length ys"
    by simp
  then have d: "drop i ys = ys ! i # drop (Suc i) ys"
    by (simp add: Cons_nth_drop_Suc)
  show ?case
  proof (cases "v < ys ! i")
    case True
    have "argmax_from (Suc i) i (ys ! i) (drop (Suc i) ys) < length ys
      \<and> (\<forall>j<length ys. ys ! j \<le> ys ! argmax_from (Suc i) i (ys ! i) (drop (Suc i) ys))
      \<and> (\<forall>j<argmax_from (Suc i) i (ys ! i) (drop (Suc i) ys).
            ys ! j < ys ! argmax_from (Suc i) i (ys ! i) (drop (Suc i) ys))"
    proof (rule Suc.hyps(1))
      show "k = length ys - Suc i"
        using Suc.hyps(2) by simp
      show "Suc i \<le> length ys"
        using i by simp
      show "\<forall>j<Suc i. ys ! j \<le> ys ! i"
        using Suc.prems(4) True by (auto simp add: less_Suc_eq intro: less_imp_le order.trans)
      show "\<forall>j<i. ys ! j < ys ! i"
        using Suc.prems(4) True by (auto intro: le_less_trans)
    qed simp_all
    with True show ?thesis
      by (simp add: d)
  next
    case False
    have "argmax_from (Suc i) b v (drop (Suc i) ys) < length ys
      \<and> (\<forall>j<length ys. ys ! j \<le> ys ! argmax_from (Suc i) b v (drop (Suc i) ys))
      \<and> (\<forall>j<argmax_from (Suc i) b v (drop (Suc i) ys).
            ys ! j < ys ! argmax_from (Suc i) b v (drop (Suc i) ys))"
    proof (rule Suc.hyps(1))
      show "k = length ys - Suc i"
        using Suc.hyps(2) by simp
      show "Suc i \<le> length ys"
        using i by simp
      show "b < Suc i"
        using Suc.prems(2) by simp
      show "v = ys ! b"
        by (rule Suc.prems(3))
      show "\<forall>j<Suc i. ys ! j \<le> v"
        using Suc.prems(4) False by (auto simp add: less_Suc_eq)
      show "\<forall>j<b. ys ! j < v"
        by (rule Suc.prems(5))
    qed
    with False show ?thesis
      by (simp add: d)
  qed
qed

lemma argmax_first_maximum:
  assumes "xs \<noteq> []"
  obtains i where "argmax xs = Inr i" and "i < length xs"
    and "\<forall>j<length xs. xs ! j \<le> xs ! i" and "\<forall>j<i. xs ! j < xs ! i"
proof -
  from assms obtain x r where xs: "xs = x # r"
    by (cases xs) simp_all
  have "argmax_from 1 0 x (drop 1 xs) < length xs
    \<and> (\<forall>j<length xs. xs ! j \<le> xs ! argmax_from 1 0 x (drop 1 xs))
    \<and> (\<forall>j<argmax_from 1 0 x (drop 1 xs). xs ! j < xs ! argmax_from 1 0 x (drop 1 xs))"
    by (rule argmax_from_spec) (simp_all add: xs)
  moreover have "argmax xs = Inr (argmax_from 1 0 x (drop 1 xs))"
    by (simp add: argmax_def xs)
  ultimately show ?thesis
    using that by blast
qed

lemma fold_sweep_step:
  "fold (sweep_step w rate rf bc) ivs t =
     \<lparr>fuel_costs = fuel_costs t @ map (\<lambda>iv. fuel_cost (evaluate w rate rf bc iv)) ivs,
      wash_costs = wash_costs t @ map (\<lambda>iv. total_wash_cost (evaluate w rate rf bc iv)) ivs,
      net_savings = net_savings t @ map (\<lambda>iv. net (evaluate w rate rf bc iv)) ivs\<rparr>"
  by (induction ivs arbitrary: t) (simp_all add: sweep_step_def Let_def)

lemma sweep_columns:
  "fuel_costs (sweep w rate rf) =
     map (\<lambda>iv. fuel_cost (evaluate w rate rf (baseline_cost w rate) iv)) (intervals (max_interval w))"
  "wash_costs (sweep w rate rf) =
     map (\<lambda>iv. total_wash_cost (evaluate w rate rf (baseline_cost w rate) iv))
       (intervals (max_interval w))"
  "net_savings (sweep w rate rf) =
     map (\<lambda>iv. net (evaluate w rate rf (baseline_cost w rate) iv)) (intervals (max_interval w))"
  by (simp_all add: sweep_def fold_sweep_step)

lemma length_intervals: "length (intervals m) = nat ((m - 10) div 10)"
  by (simp add: intervals_def py_range3_def)

lemma nth_intervals: "k < length (intervals m) \<Longrightarrow> intervals m ! k = 20 + 10 * int k"
  by (simp add: intervals_def py_range3_def)

text \<open>
  C1. For every non-empty sweep, the optimizer returns an index of the sweep whose net
  saving is greater than or equal to the net saving of every candidate, and every
  candidate with the same net saving is an interval at least as large: the selected
  interval is the first, smallest candidate of maximal net saving.
\<close>

theorem optimizer_selects_first_maximum:
  assumes "intervals (max_interval w) \<noteq> []"
  shows "\<exists>r. optimizer w rate rf = Inr r
    \<and> opt_idx r < length (intervals (max_interval w))
    \<and> opt_interval r = intervals (max_interval w) ! opt_idx r
    \<and> opt_net r = net_savings (sweep w rate rf) ! opt_idx r
    \<and> length (net_savings (sweep w rate rf)) = length (intervals (max_interval w))
    \<and> (\<forall>k<length (intervals (max_interval w)).
          net_savings (sweep w rate rf) ! k \<le> opt_net r
          \<and> (net_savings (sweep w rate rf) ! k = opt_net r \<longrightarrow>
                opt_interval r \<le> intervals (max_interval w) ! k))"
proof -
  define ivs where "ivs = intervals (max_interval w)"
  define ns where "ns = net_savings (sweep w rate rf)"
  have len: "length ns = length ivs"
    by (simp add: ns_def ivs_def sweep_columns)
  with assms have "ns \<noteq> []"
    by (auto simp add: ivs_def)
  then obtain i where i: "argmax ns = Inr i" "i < length ns"
    "\<forall>j<length ns. ns ! j \<le> ns ! i" "\<forall>j<i. ns ! j < ns ! i"
    by (rule argmax_first_maximum)
  define r where "r = \<lparr>opt_idx = i, opt_interval = ivs ! i, opt_net = ns ! i,
    opt_washes = flights_per_year w div (ivs ! i)\<rparr>"
  have opt: "optimizer w rate rf = Inr r"
    by (simp add: optimizer_def Let_def i(1) r_def flip: ns_def ivs_def)
  have tie: "opt_interval r \<le> ivs ! k" if "k < length ivs" and "ns ! k = opt_net r" for k
  proof -
    from that(2) i(4) have "\<not> k < i"
      by (auto simp add: r_def)
    then have "i \<le> k" by simp
    moreover have "ivs ! i = 20 + 10 * int i" and "ivs ! k = 20 + 10 * int k"
      using that(1) i(2) len by (simp_all add: ivs_def nth_intervals)
    ultimately show ?thesis
      by (simp add: r_def)
  qed
  have "opt_idx r < length ivs" and "opt_interval r = ivs ! opt_idx r"
    and "opt_net r = ns ! opt_idx r"
    using i(2) len by (simp_all add: r_def)
  moreover have "\<forall>k<length ivs. ns ! k \<le> opt_net r \<and> (ns ! k = opt_net r \<longrightarrow> opt_interval r \<le> ivs ! k)"
    using i(3) len tie by (simp add: r_def)
  ultimately show ?thesis
    using opt len unfolding ivs_def ns_def by blast
qed

text \<open>
  C2. For every candidate \<open>iv\<close> of the sweep, the row of the evaluation table is
  \<open>fuel_cost = fuel_flow * flight_time * 3600.0 * fuel_burn * fuel_price\<close> for the
  cumulative burn of the loop of \<open>iv\<close>, \<open>wash cost = (flights_per_year // iv) * wash_cost\<close>
  and \<open>net = baseline_cost - (fuel_cost + wash cost)\<close>, with the baseline cost computed
  from the no-wash loop; the net saving is not clamped. (With no degradation a wash
  every 20 flights saves nothing and costs 30 washes: the net saving is -120000.)
\<close>

theorem sweep_evaluation_formulas:
  fixes w :: inputs and rate rf :: rat and k :: nat
  defines "iv \<equiv> intervals (max_interval w) ! k"
  defines "t \<equiv> sweep w rate rf"
  assumes "k < length (intervals (max_interval w))"
  shows "fuel_costs t ! k =
      fmul (fmul (fmul (fmul fuel_flow (flight_time w)) 3600)
        (fuel_burn (wash_loop rate rf iv (flights_per_year w)))) (fuel_price w)
    \<and> wash_costs t ! k = (flights_per_year w div iv) * wash_cost w
    \<and> net_savings t ! k =
        fsub (baseline_cost w rate) (fadd (fuel_costs t ! k) (float_of_int (wash_costs t ! k)))
    \<and> baseline_cost w rate =
        fmul (fmul (fmul (fmul fuel_flow (flight_time w)) 3600)
          (fuel_burn (baseline_loop rate (flights_per_year w)))) (fuel_price w)"
  using assms(3) unfolding t_def iv_def
  by (simp add: sweep_columns evaluate_def baseline_cost_def Let_def)




lemma round64_of_nat:
  assumes "n < 2 ^ 53"
  shows "round64 (of_nat n) = of_nat n"
proof -
  have "round64 (of_int (int n) * 2 powi 0) = of_int (int n) * 2 powi 0"
    using assms by (intro round64_fixed) simp_all
  then show ?thesis by simp
qed

lemma wash_loop_zero_rate:
  assumes "n < 2 ^ 53"
  shows "wash_loop 0 rf iv (int n) = \<lparr>deg = 0, fuel_burn = of_nat n\<rparr>"
  using assms
proof (induction n)
  case 0
  show ?case
    unfolding of_nat_0 by (simp add: wash_loop_0 init_sim_def)
next
  case (Suc n)
  then have ih: "wash_loop 0 rf iv (int n) = \<lparr>deg = 0, fuel_burn = of_nat n\<rparr>"
    by simp
  have one: "round64 1 = 1"
    using round64_of_nat [of 1] by simp
  have "round64 (of_nat n + 1) = of_nat n + 1"
    using round64_of_nat [of "Suc n"] Suc.prems by (simp add: add.commute)
  then show ?case
    unfolding wash_loop_Suc ih
    by (simp add: wash_step_def Let_def fadd_def fdiv_def fmul_def round64_zero one add.commute)
qed

lemma default_counts:
  "flights_per_year default_inputs = 600" "wash_cost default_inputs = 4000"
  "max_interval default_inputs = 120"
  by (simp_all add: default_inputs_def)

lemma pristine_cost:
  "fmul (fmul (fmul (fmul fuel_flow (flight_time default_inputs)) 3600) 600)
     (fuel_price default_inputs) = 2250720"
  by code_simp

lemma pristine_net: "fsub 2250720 (fadd 2250720 (float_of_int 120000)) = - 120000"
  by code_simp

lemma baseline_loop_zero_rate:
  assumes "n < 2 ^ 53"
  shows "baseline_loop 0 (int n) = \<lparr>deg = 0, fuel_burn = of_nat n\<rparr>"
proof -
  have "baseline_loop 0 (int n) = wash_loop 0 0 (int n + 1) (int n)"
    by (rule wash_loop_never_triggers [symmetric]) simp
  then show ?thesis
    using assms by (simp only: wash_loop_zero_rate)
qed

text \<open>An engine that does not degrade, washed every 20 flights.\<close>

theorem sweep_evaluation_formulas_witness:
  "0 < length (intervals (max_interval default_inputs))
   \<and> intervals (max_interval default_inputs) ! 0 = 20
   \<and> wash_costs (sweep default_inputs 0 (recovery_default)) ! 0 = 600 div 20 * 4000
   \<and> fuel_costs (sweep default_inputs 0 (recovery_default)) ! 0 = 2250720
   \<and> baseline_cost default_inputs 0 = 2250720
   \<and> net_savings (sweep default_inputs 0 (recovery_default)) ! 0 = - 120000"
proof -
  have k: "0 < length (intervals (max_interval default_inputs))"
    by (simp add: default_counts length_intervals)
  have iv: "intervals (max_interval default_inputs) ! 0 = 20"
    using k by (simp add: nth_intervals)
  have w: "wash_loop 0 (recovery_default) 20 600 = \<lparr>deg = 0, fuel_burn = 600\<rparr>"
    using wash_loop_zero_rate [of 600 "recovery_default" 20] by simp
  have b: "baseline_loop 0 600 = \<lparr>deg = 0, fuel_burn = 600\<rparr>"
    using baseline_loop_zero_rate [of 600] by simp
  note f = sweep_evaluation_formulas [OF k, of 0 "recovery_default", unfolded iv]
  have wc: "wash_costs (sweep default_inputs 0 (recovery_default)) ! 0 = 600 div 20 * 4000"
    using f by (simp add: default_counts)
  have fc: "fuel_costs (sweep default_inputs 0 (recovery_default)) ! 0 = 2250720"
    using f by (simp add: default_counts w pristine_cost)
  have bc: "baseline_cost default_inputs 0 = 2250720"
    using f by (simp add: default_counts b pristine_cost)
  have "net_savings (sweep default_inputs 0 (recovery_default)) ! 0 =
      fsub 2250720 (fadd 2250720 (float_of_int 120000))"
    using f unfolding fc bc wc by simp
  then have "net_savings (sweep default_inputs 0 (recovery_default)) ! 0 = - 120000"
    by (simp only: pristine_net)
  with k iv wc fc bc show ?thesis
    by blast
qed

text \<open>
  The sweep of an engine that does not degrade: the net saving is the cost of the
  washes, and the intervals 110 and 120 tie at five washes. The optimizer selects 110.
\<close>

lemma zero_rate_net:
  "net (evaluate default_inputs 0 rf (baseline_cost default_inputs 0) iv) =
     fsub 2250720 (fadd 2250720 (float_of_int (600 div iv * 4000)))"
proof -
  have w: "wash_loop 0 rf iv 600 = \<lparr>deg = 0, fuel_burn = 600\<rparr>"
    using wash_loop_zero_rate [of 600 rf iv] by simp
  have b: "baseline_loop 0 600 = \<lparr>deg = 0, fuel_burn = 600\<rparr>"
    using baseline_loop_zero_rate [of 600] by simp
  show ?thesis
    by (simp add: evaluate_def baseline_cost_def Let_def default_counts w b pristine_cost)
qed

lemma intervals_120: "intervals 120 = [20, 30, 40, 50, 60, 70, 80, 90, 100, 110, 120]"
  by code_simp

lemma zero_rate_nets:
  "fsub 2250720 (fadd 2250720 (float_of_int (600 div 20 * 4000))) = - 120000"
  "fsub 2250720 (fadd 2250720 (float_of_int (600 div 30 * 4000))) = - 80000"
  "fsub 2250720 (fadd 2250720 (float_of_int (600 div 40 * 4000))) = - 60000"
  "fsub 2250720 (fadd 2250720 (float_of_int (600 div 50 * 4000))) = - 48000"
  "fsub 2250720 (fadd 2250720 (float_of_int (600 div 60 * 4000))) = - 40000"
  "fsub 2250720 (fadd 2250720 (float_of_int (600 div 70 * 4000))) = - 32000"
  "fsub 2250720 (fadd 2250720 (float_of_int (600 div 80 * 4000))) = - 28000"
  "fsub 2250720 (fadd 2250720 (float_of_int (600 div 90 * 4000))) = - 24000"
  "fsub 2250720 (fadd 2250720 (float_of_int (600 div 100 * 4000))) = - 24000"
  "fsub 2250720 (fadd 2250720 (float_of_int (600 div 110 * 4000))) = - 20000"
  "fsub 2250720 (fadd 2250720 (float_of_int (600 div 120 * 4000))) = - 20000"
  by code_simp+

lemma zero_rate_net_savings:
  "net_savings (sweep default_inputs 0 rf) =
     [- 120000, - 80000, - 60000, - 48000, - 40000, - 32000, - 28000, - 24000, - 24000,
      - 20000, - 20000]"
  unfolding sweep_columns default_counts intervals_120 list.map zero_rate_net zero_rate_nets
  by (rule refl)

lemma less_eleven:
  assumes "i < (11::nat)"
  shows "i = 0 \<or> i = 1 \<or> i = 2 \<or> i = 3 \<or> i = 4 \<or> i = 5 \<or> i = 6 \<or> i = 7 \<or> i = 8 \<or> i = 9
    \<or> i = 10"
  using assms by presburger

theorem optimizer_selects_first_maximum_witness:
  "intervals (max_interval default_inputs) \<noteq> []
   \<and> net_savings (sweep default_inputs 0 recovery_default) ! 9 = - 20000
   \<and> net_savings (sweep default_inputs 0 recovery_default) ! 10 = - 20000
   \<and> (\<exists>r. optimizer default_inputs 0 recovery_default = Inr r
         \<and> opt_net r = - 20000 \<and> opt_interval r = 110)"
proof -
  define ns where "ns = net_savings (sweep default_inputs 0 recovery_default)"
  define ivs where "ivs = intervals (max_interval default_inputs)"
  have ns: "ns = [- 120000, - 80000, - 60000, - 48000, - 40000, - 32000, - 28000, - 24000,
      - 24000, - 20000, - 20000]"
    unfolding ns_def by (rule zero_rate_net_savings)
  have ivs: "ivs = [20, 30, 40, 50, 60, 70, 80, 90, 100, 110, 120]"
    unfolding ivs_def by (simp only: default_counts intervals_120)
  then have ne: "ivs \<noteq> []" and len: "length ivs = 11"
    by simp_all
  from optimizer_selects_first_maximum [OF ne [unfolded ivs_def], of 0 recovery_default]
  obtain r where r: "optimizer default_inputs 0 recovery_default = Inr r"
    and idx: "opt_idx r < length ivs"
    and iv: "opt_interval r = ivs ! opt_idx r"
    and nt: "opt_net r = ns ! opt_idx r"
    and mx: "\<forall>k<length ivs. ns ! k \<le> opt_net r
      \<and> (ns ! k = opt_net r \<longrightarrow> opt_interval r \<le> ivs ! k)"
    unfolding ivs_def ns_def by blast
  have nine: "ns ! 9 \<le> opt_net r \<and> (ns ! 9 = opt_net r \<longrightarrow> opt_interval r \<le> ivs ! 9)"
    using mx len by simp
  have cases: "opt_idx r = 0 \<or> opt_idx r = 1 \<or> opt_idx r = 2 \<or> opt_idx r = 3 \<or> opt_idx r = 4
      \<or> opt_idx r = 5 \<or> opt_idx r = 6 \<or> opt_idx r = 7 \<or> opt_idx r = 8 \<or> opt_idx r = 9
      \<or> opt_idx r = 10"
    using idx len by (intro less_eleven) simp
  have at: "opt_idx r = 9 \<or> opt_idx r = 10"
    using cases nt nine by (auto simp add: ns)
  then have best: "opt_net r = - 20000"
    using nt by (auto simp add: ns)
  with nine have "opt_interval r \<le> 110"
    by (simp add: ns ivs)
  with at iv have "opt_interval r = 110"
    by (auto simp add: ivs)
  with r best have "\<exists>r. optimizer default_inputs 0 recovery_default = Inr r
      \<and> opt_net r = - 20000 \<and> opt_interval r = 110"
    by blast
  moreover have "ns ! 9 = - 20000" and "ns ! 10 = - 20000"
    by (simp_all add: ns)
  ultimately show ?thesis
    using ne unfolding ns_def ivs_def by blast
qed

section \<open>Intervals that never trigger, and the no-wash loop\<close>

lemma fadd_zero_right: "fadd (round64 x) 0 = round64 x"
  by (simp add: fadd_def round64_idem)

lemma float_of_int_0: "float_of_int 0 = 0"
  by (simp add: float_of_int_def round64_zero)

lemma fsub_self: "fsub x x = 0"
  by (simp add: fsub_def round64_zero)

text \<open>
  C9. A candidate interval greater than the number of flights of the year (a
  non-negative count) triggers no wash: the number of washes and the wash cost are 0,
  the fuel cost is exactly the baseline cost (the same floating-point sum), and the net
  saving is exactly 0.
\<close>

theorem interval_beyond_year_saves_nothing:
  assumes "0 \<le> flights_per_year w" and "flights_per_year w < iv"
  shows "flights_per_year w div iv = 0
    \<and> total_wash_cost (evaluate w rate rf (baseline_cost w rate) iv) = 0
    \<and> fuel_cost (evaluate w rate rf (baseline_cost w rate) iv) = baseline_cost w rate
    \<and> net (evaluate w rate rf (baseline_cost w rate) iv) = 0"
proof -
  have d: "flights_per_year w div iv = 0"
    using assms by simp
  have l: "wash_loop rate rf iv (flights_per_year w) = baseline_loop rate (flights_per_year w)"
    using assms(2) by (rule wash_loop_never_triggers)
  have c: "fuel_cost (evaluate w rate rf (baseline_cost w rate) iv) = baseline_cost w rate"
    by (simp add: evaluate_def baseline_cost_def Let_def l)
  have t: "total_wash_cost (evaluate w rate rf (baseline_cost w rate) iv) = 0"
    by (simp add: evaluate_def Let_def d)
  have "net (evaluate w rate rf (baseline_cost w rate) iv) =
      fsub (baseline_cost w rate) (fadd (baseline_cost w rate) 0)"
    by (simp add: evaluate_def baseline_cost_def Let_def l d float_of_int_0)
  also have "fadd (baseline_cost w rate) 0 = baseline_cost w rate"
    unfolding baseline_cost_def Let_def fmul_def by (rule fadd_zero_right)
  finally have "net (evaluate w rate rf (baseline_cost w rate) iv) = 0"
    by (simp add: fsub_self)
  with d t c show ?thesis by simp
qed

theorem interval_beyond_year_saves_nothing_witness:
  "0 \<le> flights_per_year (default_inputs\<lparr>flights_per_year := 50\<rparr>)
   \<and> flights_per_year (default_inputs\<lparr>flights_per_year := 50\<rparr>) < 60
   \<and> total_wash_cost (evaluate (default_inputs\<lparr>flights_per_year := 50\<rparr>) deg_rate_default
         recovery_default
         (baseline_cost (default_inputs\<lparr>flights_per_year := 50\<rparr>) deg_rate_default) 60) = 0
   \<and> fuel_cost (evaluate (default_inputs\<lparr>flights_per_year := 50\<rparr>) deg_rate_default
         recovery_default
         (baseline_cost (default_inputs\<lparr>flights_per_year := 50\<rparr>) deg_rate_default) 60) =
       baseline_cost (default_inputs\<lparr>flights_per_year := 50\<rparr>) deg_rate_default
   \<and> net (evaluate (default_inputs\<lparr>flights_per_year := 50\<rparr>) deg_rate_default
         recovery_default
         (baseline_cost (default_inputs\<lparr>flights_per_year := 50\<rparr>) deg_rate_default) 60) = 0"
  using interval_beyond_year_saves_nothing
    [of "default_inputs\<lparr>flights_per_year := 50\<rparr>" 60 deg_rate_default recovery_default]
  by simp


lemma baseline_invariant:
  assumes "0 \<le> rate"
  shows "0 \<le> deg (baseline_loop rate (int n))
    \<and> round64 (fuel_burn (baseline_loop rate (int n))) = fuel_burn (baseline_loop rate (int n))"
proof (induction n)
  case 0
  then show ?case
    unfolding of_nat_0 by (simp add: baseline_loop_0 init_sim_def round64_zero)
next
  case (Suc n)
  then show ?case
    using assms
    by (simp add: baseline_loop_Suc baseline_step_def Let_def fadd_def round64_idem
        round64_nonneg del: of_nat_Suc)
qed

lemma increment_nonneg:
  assumes "0 \<le> d"
  shows "0 \<le> fadd 1 (fdiv d 100)"
proof -
  have "0 \<le> fdiv d 100"
    using assms by (simp add: fdiv_def round64_nonneg)
  then show ?thesis
    by (simp add: fadd_def round64_nonneg)
qed

lemma baseline_burn_step:
  assumes "0 \<le> rate"
  shows "fuel_burn (baseline_loop rate (int n)) \<le> fuel_burn (baseline_loop rate (int (Suc n)))"
proof -
  define s where "s = baseline_loop rate (int n)"
  have inv: "0 \<le> deg s" "round64 (fuel_burn s) = fuel_burn s"
    using baseline_invariant [OF assms, of n] by (simp_all add: s_def)
  have "fuel_burn s \<le> fuel_burn s + fadd 1 (fdiv (deg s) 100)"
    using increment_nonneg [OF inv(1)] by simp
  then have "round64 (fuel_burn s) \<le> round64 (fuel_burn s + fadd 1 (fdiv (deg s) 100))"
    by (rule round64_mono)
  then have "fuel_burn s \<le> fuel_burn (baseline_step rate s)"
    by (simp add: inv(2) baseline_step_def Let_def fadd_def [of "fuel_burn s"])
  then show ?thesis
    by (simp only: baseline_loop_Suc s_def)
qed

lemma baseline_burn_mono_nat:
  assumes "0 \<le> rate" and "m \<le> n"
  shows "fuel_burn (baseline_loop rate (int m)) \<le> fuel_burn (baseline_loop rate (int n))"
  using assms(2)
proof (induction n)
  case 0
  then show ?case by simp
next
  case (Suc n)
  show ?case
  proof (cases "m = Suc n")
    case True
    then show ?thesis by simp
  next
    case False
    with Suc.prems have "m \<le> n" by simp
    then have "fuel_burn (baseline_loop rate (int m)) \<le> fuel_burn (baseline_loop rate (int n))"
      by (rule Suc.IH)
    also note baseline_burn_step [OF assms(1), of n]
    finally show ?thesis .
  qed
qed

lemma baseline_loop_nat: "baseline_loop rate n = baseline_loop rate (int (nat n))"
  unfolding baseline_loop_def by (subst py_range_int) simp

text \<open>
  C7. For every degradation rate \<open>\<ge> 0\<close> (the recovery factor plays no part in the
  no-wash loop), the cumulative burn of the no-wash loop is non-decreasing in the number
  of flights: the degradation stays \<open>\<ge> 0\<close>, so the increment \<open>1.0 + deg / 100.0\<close> of each
  flight is \<open>\<ge> 0\<close>, and rounding is monotone.
\<close>

theorem no_wash_burn_nondecreasing:
  assumes "0 \<le> rate" and "m \<le> n"
  shows "fuel_burn (baseline_loop rate m) \<le> fuel_burn (baseline_loop rate n)
    \<and> 0 \<le> deg (baseline_loop rate m)
    \<and> 0 \<le> fadd 1 (fdiv (deg (baseline_loop rate m)) 100)"
proof -
  have "nat m \<le> nat n"
    using assms(2) by simp
  then have "fuel_burn (baseline_loop rate (int (nat m))) \<le>
      fuel_burn (baseline_loop rate (int (nat n)))"
    by (rule baseline_burn_mono_nat [OF assms(1)])
  moreover have d: "0 \<le> deg (baseline_loop rate (int (nat m)))"
    using baseline_invariant [OF assms(1), of "nat m"] by simp
  moreover note increment_nonneg [OF d]
  ultimately show ?thesis
    by (simp only: baseline_loop_nat [symmetric])
qed

theorem no_wash_burn_nondecreasing_witness:
  "0 \<le> deg_rate_default \<and> (10::int) \<le> 600
   \<and> fuel_burn (baseline_loop deg_rate_default 10) \<le> fuel_burn (baseline_loop deg_rate_default 600)
   \<and> 0 \<le> deg (baseline_loop deg_rate_default 10)"
proof -
  have r: "0 \<le> deg_rate_default"
    by (simp add: deg_rate_default_def round64_nonneg)
  show ?thesis
    using r no_wash_burn_nondecreasing [OF r, of 10 600] by simp
qed


section \<open>The trajectories\<close>

lemma trajectory_invariant:
  fixes n :: nat and rate rf :: rat and two opt_iv :: int
  defines "t \<equiv> fold (traj_step rate rf two opt_iv) (py_range (int n)) init_trajectory"
  shows "length (eff_no t) = n \<and> length (eff_two t) = n \<and> length (eff_opt t) = n
    \<and> deg_no t = deg (baseline_loop rate (int n))
    \<and> deg_two t = deg (wash_loop rate rf two (int n))
    \<and> deg_opt t = deg (wash_loop rate rf opt_iv (int n))
    \<and> (\<forall>c<n. eff_no t ! c = fsub 100 (deg (baseline_loop rate (int c)))
          \<and> eff_two t ! c = fsub 100 (deg (wash_loop rate rf two (int c)))
          \<and> eff_opt t ! c = fsub 100 (deg (wash_loop rate rf opt_iv (int c))))"
  unfolding t_def
proof (induction n)
  case 0
  show ?case
    unfolding of_nat_0
    by (simp add: py_range_def init_trajectory_def baseline_loop_0 wash_loop_0 init_sim_def)
next
  case (Suc n)
  define u where "u = fold (traj_step rate rf two opt_iv) (py_range (int n)) init_trajectory"
  have step: "fold (traj_step rate rf two opt_iv) (py_range (int (Suc n))) init_trajectory =
      traj_step rate rf two opt_iv (int n) u"
    unfolding py_range_Suc u_def by simp
  note ih = Suc.IH [folded u_def]
  show ?case
    unfolding step
    using ih
    by (auto simp add: traj_step_def Let_def baseline_loop_Suc wash_loop_Suc baseline_step_def
        wash_step_def nth_append less_Suc_eq simp del: of_nat_Suc)
qed

lemma fsub_100_0: "fsub 100 0 = 100"
proof -
  have "round64 (of_int 100 * 2 powi 0) = of_int 100 * 2 powi 0"
    by (rule round64_fixed) simp_all
  then show ?thesis
    by (simp add: fsub_def)
qed

lemma wash_loop_nat: "wash_loop rate rf iv n = wash_loop rate rf iv (int (nat n))"
  unfolding wash_loop_def by (subst py_range_int) simp

text \<open>
  C4. For the three policies (no wash, the fixed interval \<open>max(flights_per_year // 2, 1)\<close>,
  the optimized interval), the trajectory has exactly \<open>flights_per_year\<close> elements; its
  value at every index \<open>c\<close> is \<open>100 - deg\<close> for the degradation that the policy's
  simulation loop has accumulated over the first \<open>c\<close> flights, that is before the
  increment and the recovery of flight \<open>c\<close>; and its value at index 0 is 100.
\<close>

theorem trajectories_record_efficiency_entering_each_flight:
  fixes n opt_iv :: int and rate rf :: rat
  defines "t \<equiv> trajectories n rate rf opt_iv"
  shows "length (eff_no t) = nat n \<and> length (eff_two t) = nat n \<and> length (eff_opt t) = nat n
    \<and> (\<forall>c. 0 \<le> c \<and> c < n \<longrightarrow>
          eff_no t ! nat c = fsub 100 (deg (baseline_loop rate c))
          \<and> eff_two t ! nat c = fsub 100 (deg (wash_loop rate rf (max (n div 2) 1) c))
          \<and> eff_opt t ! nat c = fsub 100 (deg (wash_loop rate rf opt_iv c)))
    \<and> (0 < n \<longrightarrow> eff_no t ! 0 = 100 \<and> eff_two t ! 0 = 100 \<and> eff_opt t ! 0 = 100)"
proof -
  have t: "t = fold (traj_step rate rf (max (n div 2) 1) opt_iv) (py_range (int (nat n)))
      init_trajectory"
    unfolding t_def trajectories_def Let_def by (subst py_range_int) simp
  note inv = trajectory_invariant [of rate rf "max (n div 2) 1" opt_iv "nat n", folded t]
  have len: "length (eff_no t) = nat n \<and> length (eff_two t) = nat n \<and> length (eff_opt t) = nat n"
    using inv by simp
  have nth: "eff_no t ! nat c = fsub 100 (deg (baseline_loop rate c))
      \<and> eff_two t ! nat c = fsub 100 (deg (wash_loop rate rf (max (n div 2) 1) c))
      \<and> eff_opt t ! nat c = fsub 100 (deg (wash_loop rate rf opt_iv c))"
    if "0 \<le> c" and "c < n" for c
  proof -
    from that have "nat c < nat n" by simp
    with inv have "eff_no t ! nat c = fsub 100 (deg (baseline_loop rate (int (nat c))))
      \<and> eff_two t ! nat c = fsub 100 (deg (wash_loop rate rf (max (n div 2) 1) (int (nat c))))
      \<and> eff_opt t ! nat c = fsub 100 (deg (wash_loop rate rf opt_iv (int (nat c))))"
      by blast
    then show ?thesis
      using that(1) by simp
  qed
  have first: "eff_no t ! 0 = 100 \<and> eff_two t ! 0 = 100 \<and> eff_opt t ! 0 = 100" if "0 < n"
    using nth [of 0] that by (simp add: baseline_loop_0 wash_loop_0 init_sim_def fsub_100_0)
  from len nth first show ?thesis
    by blast
qed

theorem trajectories_record_efficiency_entering_each_flight_witness:
  "length (eff_no (trajectories 600 deg_rate_default recovery_default 60)) = 600
   \<and> length (eff_two (trajectories 600 deg_rate_default recovery_default 60)) = 600
   \<and> length (eff_opt (trajectories 600 deg_rate_default recovery_default 60)) = 600
   \<and> eff_two (trajectories 600 deg_rate_default recovery_default 60) ! 300 =
       fsub 100 (deg (wash_loop deg_rate_default recovery_default 300 300))
   \<and> eff_opt (trajectories 600 deg_rate_default recovery_default 60) ! 300 =
       fsub 100 (deg (wash_loop deg_rate_default recovery_default 60 300))
   \<and> eff_no (trajectories 600 deg_rate_default recovery_default 60) ! 0 = 100"
proof -
  note t = trajectories_record_efficiency_entering_each_flight
    [of 600 deg_rate_default recovery_default 60]
  from t have "0 \<le> (300::int) \<and> (300::int) < 600 \<longrightarrow>
      eff_two (trajectories 600 deg_rate_default recovery_default 60) ! nat 300 =
        fsub 100 (deg (wash_loop deg_rate_default recovery_default (max (600 div 2) 1) 300))
      \<and> eff_opt (trajectories 600 deg_rate_default recovery_default 60) ! nat 300 =
        fsub 100 (deg (wash_loop deg_rate_default recovery_default 60 300))"
    by blast
  with t show ?thesis
    by simp
qed

section \<open>The derivation of \<open>dSFC\<close>\<close>






















lemma c008: "round64 (8 / 100) = 5764607523034235 / 72057594037927936"
  by code_simp

lemma round64_minus_one: "round64 (- 1) = - 1"
  using round64_fixed [of "- 1" 0] by simp

lemma dSFC_egt_negative:
  assumes "before < after"
  shows "dSFC_egt before after < 0"
proof -
  define c :: rat where "c = round64 (8 / 100)"
  have "c = 5764607523034235 / 72057594037927936"
    unfolding c_def by (rule c008)
  then have c: "0 < c" "round64 c = c"
    by (simp_all add: c_def round64_idem)
  from assms have "before - after \<le> - 1"
    by simp
  then have "(of_int (before - after) :: rat) \<le> of_int (- 1)"
    by (simp only: of_int_le_iff)
  then have "round64 (of_int (before - after)) \<le> round64 (- 1)"
    by (intro round64_mono) simp
  then have "float_of_int (before - after) \<le> - 1"
    by (simp add: float_of_int_def round64_minus_one)
  then have "c * float_of_int (before - after) \<le> c * (- 1)"
    using c(1) by (intro mult_left_mono) simp_all
  then have "round64 (c * float_of_int (before - after)) \<le> round64 (- c)"
    using round64_mono by simp
  then have "round64 (c * float_of_int (before - after)) < 0"
    using c by (simp add: round64_minus)
  moreover have "dSFC_egt before after = round64 (c * float_of_int (before - after))"
    unfolding dSFC_egt_def fmul_def c_def by (rule refl)
  ultimately show ?thesis
    by simp
qed

text \<open>
  C6. For every \<open>egt_before\<close> and \<open>egt_after\<close>, the EGT heuristic returns
  \<open>0.08 * (egt_before - egt_after)\<close> evaluated in binary64; when \<open>egt_after > egt_before\<close> the
  result is negative, so it is not clamped to zero; for 630 and 620 the result is the
  float \<open>0.8\<close>. It is the \<open>dSFC\<close> of the simulation mode.
\<close>

theorem dSFC_from_egt:
  "dSFC_egt before after = round64 (round64 (8 / 100) * round64 (of_int (before - after)))
   \<and> (before < after \<longrightarrow> dSFC_egt before after < 0)
   \<and> dSFC_egt 630 620 = round64 (8 / 10)
   \<and> (\<not> qar_mode w \<longrightarrow>
        (\<exists>m. mode_specific w = Inr m \<and> dSFC m = Finite (dSFC_egt (EGT_before w) (EGT_after w))))"
proof -
  have "dSFC_egt 630 620 = round64 (8 / 10)"
    by code_simp
  then show ?thesis
    by (simp add: dSFC_egt_negative mode_specific_def)
      (simp add: dSFC_egt_def fmul_def float_of_int_def)
qed

theorem dSFC_from_egt_witness:
  "(620::int) < 630 \<and> \<not> qar_mode (default_inputs\<lparr>qar_mode := False\<rparr>)
   \<and> dSFC_egt 620 630 < 0
   \<and> dSFC_egt 620 630 = round64 (round64 (8 / 100) * round64 (of_int (620 - 630)))
   \<and> dSFC_egt 630 620 = round64 (8 / 10)
   \<and> (\<exists>m. mode_specific (default_inputs\<lparr>qar_mode := False\<rparr>) = Inr m
         \<and> dSFC m = Finite (dSFC_egt (EGT_before (default_inputs\<lparr>qar_mode := False\<rparr>))
               (EGT_after (default_inputs\<lparr>qar_mode := False\<rparr>))))"
proof -
  note t = dSFC_from_egt [of 620 630 "default_inputs\<lparr>qar_mode := False\<rparr>"]
  have p: "(620::int) < 630" "\<not> qar_mode (default_inputs\<lparr>qar_mode := False\<rparr>)"
    by simp_all
  from t p(1) have "dSFC_egt 620 630 < 0"
    by blast
  moreover from t have "dSFC_egt 620 630 =
      round64 (round64 (8 / 100) * round64 (of_int (620 - 630)))"
    and "dSFC_egt 630 620 = round64 (8 / 10)"
    by blast+
  moreover from t p(2) have "\<exists>m. mode_specific (default_inputs\<lparr>qar_mode := False\<rparr>) = Inr m
      \<and> dSFC m = Finite (dSFC_egt (EGT_before (default_inputs\<lparr>qar_mode := False\<rparr>))
            (EGT_after (default_inputs\<lparr>qar_mode := False\<rparr>)))"
    by blast
  ultimately show ?thesis
    using p by blast
qed

section \<open>Tables with missing columns\<close>

lemma with_delta_sfc_incomplete:
  assumes "\<not> has_column df delta_sfc_name"
    and "\<not> (has_column df ''Fuel_Flow_Pre'' \<and> has_column df ''Fuel_Flow_Post'')"
  shows "with_delta_sfc df = Inr df"
  using assms by (auto simp add: with_delta_sfc_def has_column_def split: option.splits)

text \<open>
  C8. For every fleet table that lacks the \<open>Aircraft_ID\<close> or the \<open>Month\<close> column, or that
  lacks both the \<open>\<Delta>SFC\<close> column and the pair of fuel-flow columns, the page stops with
  an error message that names the missing columns; nothing below the validation (no
  aggregation, heatmap or metric) is run.
\<close>

theorem fleet_page_fails_early:
  assumes "\<not> has_column df ''Aircraft_ID'' \<or> \<not> has_column df ''Month''
    \<or> (\<not> has_column df delta_sfc_name
        \<and> \<not> (has_column df ''Fuel_Flow_Pre'' \<and> has_column df ''Fuel_Flow_Post''))"
  shows "fleet_page parse (Table df) =
    Inr (Stopped StError
      (if has_column df ''Aircraft_ID'' \<and> has_column df ''Month'' then delta_sfc_message
       else required_message))"
proof (cases "has_column df ''Aircraft_ID'' \<and> has_column df ''Month''")
  case True
  with assms have "\<not> has_column df delta_sfc_name"
    and "\<not> (has_column df ''Fuel_Flow_Pre'' \<and> has_column df ''Fuel_Flow_Post'')"
    by blast+
  then have "with_delta_sfc df = Inr df" and "\<not> has_column df delta_sfc_name"
    by (simp_all add: with_delta_sfc_incomplete)
  with True show ?thesis
    by (simp add: fleet_page_def)
next
  case False
  then show ?thesis
    by (auto simp add: fleet_page_def)
qed

theorem fleet_page_fails_early_witness:
  "has_column fleet_without_post ''Aircraft_ID'' \<and> has_column fleet_without_post ''Month''
   \<and> \<not> has_column fleet_without_post delta_sfc_name
   \<and> \<not> has_column fleet_without_post ''Fuel_Flow_Post''
   \<and> fleet_page (\<lambda>c. Some []) (Table fleet_without_post) = Inr (Stopped StError delta_sfc_message)"
proof -
  have h: "has_column fleet_without_post ''Aircraft_ID''" "has_column fleet_without_post ''Month''"
    "\<not> has_column fleet_without_post delta_sfc_name"
    "\<not> has_column fleet_without_post ''Fuel_Flow_Post''"
    by (simp_all add: fleet_without_post_def has_column_def delta_sfc_name_def Delta_def)
  then show ?thesis
    using fleet_page_fails_early [of fleet_without_post "\<lambda>c. Some []"] by simp
qed







end
